theory Spec2Isabelle
  imports Main
begin

section \<open>Data model\<close>

text \<open>
  The repository is a NestJS service whose \<open>UnitOfWorkService\<close> makes a TypeORM
  transaction handle (an \<open>EntityManager\<close>) ambient through Node's
  \<open>AsyncLocalStorage\<close>. The handle is either the manager of a transaction opened by
  \<open>connection.transaction\<close> or a plain manager made by
  \<open>connection.createEntityManager()\<close>.
\<close>

datatype handle = TxManager nat | PlainManager nat

datatype error =
    HttpException string nat
  | EntityNotFoundError nat
  | QueryRunnerAlreadyReleasedError
  | TypeError string

text \<open>
  Modelled from the spec: the entity classes \<open>Order\<close> and \<open>Item\<close> and the
  request DTO are imported by the sources but are not among them. Section 3: an order
  owns zero or more items. Their fields are those that \<open>createOrder\<close> reads and
  writes: \<open>date\<close>, \<open>description\<close>, \<open>items\<close> of an order and of the DTO,
  \<open>name\<close>, \<open>quantity\<close>, \<open>order\<close> of an item. The identifier and the
  relations of a new entity are \<open>undefined\<close>, here \<open>None\<close>.
\<close>

datatype Order =
  Order (order_id: "nat option") (order_date: string) (order_description: string)
        (order_items: "Item list option")
and Item =
  Item (item_id: "nat option") (item_name: string) (item_quantity: int)
       (item_order: "Order option")

record ItemDto =
  dto_name :: string
  dto_quantity :: int

record CreateOrderRequestDto =
  dto_date :: string
  dto_description :: string
  dto_items :: "ItemDto list"

text \<open>
  The world that all executions share: the database, the counters and the random
  numbers to come. A row is an order or an item with its foreign key. Each stored row is
  paired with the handle that wrote it; the tag is ghost state, which lets a theorem
  speak of the writes of one transaction. \<open>events\<close> is the log of the transactions
  begun, committed and rolled back, ghost state as well.
\<close>

datatype row = OrderRow nat string string | ItemRow nat string int "nat option"

datatype event = Begin nat | Commit nat | Rollback nat

record world =
  committed :: "(handle \<times> row) list"
  pending :: "nat \<Rightarrow> (handle \<times> row) list option"
  next_tx :: nat
  next_manager :: nat
  next_order_id :: nat
  next_item_id :: nat
  events :: "event list"
  entropy :: "nat \<Rightarrow> nat"
  draws :: nat

text \<open>
  The store of one \<open>asyncLocalStorage.run\<close> is a \<open>Map<string, EntityManager>\<close>.
  A logical execution sees its own current store (none outside every \<open>run\<close>) and
  the shared world.
\<close>

type_synonym store = "string \<Rightarrow> handle option"

type_synonym st = "store option \<times> world"

section \<open>Asynchronous computations\<close>

text \<open>
  An \<open>async\<close> function is a computation that ends with a value (\<open>Done\<close>) or a
  rejection (\<open>Fail\<close>), performs atomic steps on the state it sees, and may suspend at
  an \<open>await\<close> (\<open>Yield\<close>). \<open>Step u n\<close> changes the state by \<open>u\<close> and goes on
  as \<open>n\<close> of the state before the step. The type is inductive: every computation
  ends. \<open>settle\<close> is \<open>then\<close> with both handlers, \<open>bind\<close> is sequencing in an
  \<open>async\<close> body, where a rejection passes on.
\<close>

datatype 'a proc =
    Done 'a
  | Fail error
  | Yield "'a proc"
  | Step "st \<Rightarrow> st" "st \<Rightarrow> 'a proc"

primrec settle :: "'a proc \<Rightarrow> ('a \<Rightarrow> 'b proc) \<Rightarrow> (error \<Rightarrow> 'b proc) \<Rightarrow> 'b proc" where
  "settle (Done v) f g = f v"
| "settle (Fail e) f g = g e"
| "settle (Yield p) f g = Yield (settle p f g)"
| "settle (Step u n) f g = Step u (\<lambda>s. settle (n s) f g)"

definition bind :: "'a proc \<Rightarrow> ('a \<Rightarrow> 'b proc) \<Rightarrow> 'b proc" where
  "bind p k = settle p k Fail"

definition and_finally :: "'a proc \<Rightarrow> unit proc \<Rightarrow> 'a proc" where
  "and_finally p q = settle p (\<lambda>v. bind q (\<lambda>_. Done v)) (\<lambda>e. bind q (\<lambda>_. Fail e))"

definition await :: "'a proc \<Rightarrow> 'a proc" where
  "await p = settle p (\<lambda>v. Yield (Done v)) (\<lambda>e. Yield (Fail e))"

definition atomic :: "(st \<Rightarrow> (error + 'a) \<times> st) \<Rightarrow> 'a proc" where
  "atomic f = Step (\<lambda>s. snd (f s)) (\<lambda>s. case fst (f s) of Inl e \<Rightarrow> Fail e | Inr v \<Rightarrow> Done v)"

text \<open>Running one logical execution alone, to its end.\<close>

primrec exec :: "'a proc \<Rightarrow> st \<Rightarrow> (error + 'a) \<times> st" where
  "exec (Done v) s = (Inr v, s)"
| "exec (Fail e) s = (Inl e, s)"
| "exec (Yield p) s = exec p s"
| "exec (Step u n) s = exec (n s) (u s)"

section \<open>The external collaborators\<close>

subsection \<open>AsyncLocalStorage\<close>

text \<open>
  Modelled from the spec: Node's \<open>AsyncLocalStorage\<close> is not part of the repository.
  Section 4.1: \<open>getStore\<close> returns the store of the nearest enclosing \<open>run\<close> of
  this logical execution or nothing; \<open>run\<close> makes the given store current for the
  dynamic extent of the callback and restores the outer one afterwards, whether the
  callback ends normally or fails.
\<close>

definition als_getStore :: "store option proc" where
  "als_getStore = atomic (\<lambda>(c, w). (Inr c, (c, w)))"

definition als_enter :: "store option \<Rightarrow> unit proc" where
  "als_enter c' = atomic (\<lambda>(c, w). (Inr (), (c', w)))"

definition als_run :: "store \<Rightarrow> 'a proc \<Rightarrow> 'a proc" where
  "als_run m callback =
     bind als_getStore (\<lambda>outer.
     bind (als_enter (Some m)) (\<lambda>_.
     and_finally callback (als_enter outer)))"

text \<open>
  Modelled from the spec: the store entry of section 3 is a mapping from the well-known
  key to a handle; the source keeps it in a JavaScript \<open>Map\<close>. These are the three
  \<open>Map\<close> operations the source applies to \<open>getStore()\<close>. Applied to
  \<open>undefined\<close> each is a JavaScript \<open>TypeError\<close>. \<open>Map.get\<close> of an absent key
  is \<open>undefined\<close>, which is not an \<open>EntityManager\<close>; it is a failure here.
\<close>

definition store_has :: "store option \<Rightarrow> string \<Rightarrow> bool" where
  "store_has storage k = (case storage of None \<Rightarrow> False | Some m \<Rightarrow> m k \<noteq> None)"

definition store_get :: "string \<Rightarrow> handle proc" where
  "store_get k =
     bind als_getStore (\<lambda>storage.
       case storage of
         None \<Rightarrow> Fail (TypeError ''getStore() is undefined'')
       | Some m \<Rightarrow> (case m k of None \<Rightarrow> Fail (TypeError ''undefined'') | Some h \<Rightarrow> Done h))"

definition store_set :: "string \<Rightarrow> handle \<Rightarrow> unit proc" where
  "store_set k h =
     atomic (\<lambda>(c, w).
       case c of
         None \<Rightarrow> (Inl (TypeError ''getStore() is undefined''), (c, w))
       | Some m \<Rightarrow> (Inr (), (Some (m(k \<mapsto> h)), w)))"

subsection \<open>The persistence engine\<close>

text \<open>
  Modelled from the spec: TypeORM's \<open>Connection\<close> and \<open>EntityManager\<close> are not part
  of the repository. Section 6: \<open>connection.transaction(unitOfWork)\<close> runs the unit of
  work, commits if it returns normally, rolls back and propagates if it raises;
  \<open>createEntityManager\<close> gives a default, non-transactional handle.

  A transaction keeps its writes in \<open>pending\<close> until the commit applies them to
  \<open>committed\<close>; a rollback drops them. A plain manager writes to \<open>committed\<close> at
  once. A write replaces the row with the same table and key, or adds one.
\<close>

fun same_key :: "row \<Rightarrow> row \<Rightarrow> bool" where
  "same_key (OrderRow i _ _) (OrderRow j _ _) = (i = j)"
| "same_key (ItemRow i _ _ _) (ItemRow j _ _ _) = (i = j)"
| "same_key _ _ = False"

definition upsert :: "(handle \<times> row) list \<Rightarrow> handle \<times> row \<Rightarrow> (handle \<times> row) list" where
  "upsert rows x = filter (\<lambda>y. \<not> same_key (snd y) (snd x)) rows @ [x]"

definition apply_writes :: "(handle \<times> row) list \<Rightarrow> (handle \<times> row) list \<Rightarrow> (handle \<times> row) list" where
  "apply_writes rows ws = foldl upsert rows ws"

definition begin_world :: "world \<Rightarrow> world" where
  "begin_world w =
     w\<lparr>pending := (pending w)(next_tx w \<mapsto> []),
       next_tx := Suc (next_tx w),
       events := events w @ [Begin (next_tx w)]\<rparr>"

definition startTransaction :: "nat proc" where
  "startTransaction = atomic (\<lambda>(c, w). (Inr (next_tx w), (c, begin_world w)))"

definition commit_world :: "nat \<Rightarrow> world \<Rightarrow> world" where
  "commit_world n w =
     w\<lparr>committed := apply_writes (committed w) (case pending w n of None \<Rightarrow> [] | Some ws \<Rightarrow> ws),
       pending := (pending w)(n := None),
       events := events w @ [Commit n]\<rparr>"

definition rollback_world :: "nat \<Rightarrow> world \<Rightarrow> world" where
  "rollback_world n w =
     w\<lparr>pending := (pending w)(n := None), events := events w @ [Rollback n]\<rparr>"

definition commitTransaction :: "nat \<Rightarrow> unit proc" where
  "commitTransaction n = atomic (\<lambda>(c, w). (Inr (), (c, commit_world n w)))"

definition rollbackTransaction :: "nat \<Rightarrow> unit proc" where
  "rollbackTransaction n = atomic (\<lambda>(c, w). (Inr (), (c, rollback_world n w)))"

definition connection_transaction :: "(handle \<Rightarrow> 'a proc) \<Rightarrow> 'a proc" where
  "connection_transaction runInTransaction =
     bind startTransaction (\<lambda>n.
       settle (await (runInTransaction (TxManager n)))
         (\<lambda>result. bind (await (commitTransaction n)) (\<lambda>_. Done result))
         (\<lambda>err. bind (await (rollbackTransaction n)) (\<lambda>_. Fail err)))"

definition createEntityManager :: "handle proc" where
  "createEntityManager =
     atomic (\<lambda>(c, w). (Inr (PlainManager (next_manager w)),
                        (c, w\<lparr>next_manager := Suc (next_manager w)\<rparr>)))"

text \<open>
  Modelled from the spec: what a handle of the persistence engine sees and writes. A
  plain manager sees the committed rows, the manager of an open transaction the
  committed rows overlaid with its own pending writes. The manager of a transaction that
  has ended has released its query runner: it sees nothing and writes nothing.
\<close>

definition visible :: "handle \<Rightarrow> world \<Rightarrow> (handle \<times> row) list option" where
  "visible h w =
     (case h of
        PlainManager _ \<Rightarrow> Some (committed w)
      | TxManager n \<Rightarrow>
          (case pending w n of None \<Rightarrow> None | Some ws \<Rightarrow> Some (apply_writes (committed w) ws)))"

definition write_row :: "handle \<Rightarrow> row \<Rightarrow> world \<Rightarrow> world option" where
  "write_row h r w =
     (case h of
        PlainManager _ \<Rightarrow> Some (w\<lparr>committed := upsert (committed w) (h, r)\<rparr>)
      | TxManager n \<Rightarrow>
          (case pending w n of
             None \<Rightarrow> None
           | Some ws \<Rightarrow> Some (w\<lparr>pending := (pending w)(n \<mapsto> ws @ [(h, r)])\<rparr>)))"

text \<open>
  Modelled from the spec: \<open>manager.save(entity)\<close> of the persistence engine. An
  entity without identifier takes the next value of its table's counter, which a
  rollback does not give back; the entity is returned with its identifier. An item is
  stored with the identifier of its order as foreign key.
\<close>

definition manager_save_order :: "handle \<Rightarrow> Order \<Rightarrow> Order proc" where
  "manager_save_order h order =
     atomic (\<lambda>(c, w).
       let i = (case order_id order of None \<Rightarrow> next_order_id w | Some i \<Rightarrow> i) in
       case write_row h (OrderRow i (order_date order) (order_description order))
              (w\<lparr>next_order_id := max (next_order_id w) (Suc i)\<rparr>) of
         None \<Rightarrow> (Inl QueryRunnerAlreadyReleasedError, (c, w))
       | Some w' \<Rightarrow>
           (Inr (Order (Some i) (order_date order) (order_description order) (order_items order)),
            (c, w')))"

definition manager_save_item :: "handle \<Rightarrow> Item \<Rightarrow> Item proc" where
  "manager_save_item h item =
     atomic (\<lambda>(c, w).
       let i = (case item_id item of None \<Rightarrow> next_item_id w | Some i \<Rightarrow> i);
           fk = (case item_order item of None \<Rightarrow> None | Some order \<Rightarrow> order_id order) in
       case write_row h (ItemRow i (item_name item) (item_quantity item) fk)
              (w\<lparr>next_item_id := max (next_item_id w) (Suc i)\<rparr>) of
         None \<Rightarrow> (Inl QueryRunnerAlreadyReleasedError, (c, w))
       | Some w' \<Rightarrow>
           (Inr (Item (Some i) (item_name item) (item_quantity item) (item_order item)),
            (c, w')))"

text \<open>
  Modelled from the spec: \<open>manager.find(Order, {relations: ['items']})\<close> and
  \<open>manager.findOneOrFail(Order, idOrder, {relations: ['items']})\<close> of the
  persistence engine. Each order comes with the items that refer to it. Section 7: a
  lookup by identifier that finds nothing fails with a NotFound-class error, TypeORM's
  \<open>EntityNotFoundError\<close>.
\<close>

fun item_of_row :: "nat \<Rightarrow> handle \<times> row \<Rightarrow> Item list" where
  "item_of_row oid (h, ItemRow i nm q fk) = (if fk = Some oid then [Item (Some i) nm q None] else [])"
| "item_of_row oid (h, OrderRow i d ds) = []"

fun order_of_row :: "(handle \<times> row) list \<Rightarrow> handle \<times> row \<Rightarrow> Order list" where
  "order_of_row rows (h, OrderRow i d ds) =
     [Order (Some i) d ds (Some (concat (map (item_of_row i) rows)))]"
| "order_of_row rows (h, ItemRow i nm q fk) = []"

definition orders_with_items :: "(handle \<times> row) list \<Rightarrow> Order list" where
  "orders_with_items rows = concat (map (order_of_row rows) rows)"

definition manager_find :: "handle \<Rightarrow> Order list proc" where
  "manager_find h =
     atomic (\<lambda>(c, w).
       case visible h w of
         None \<Rightarrow> (Inl QueryRunnerAlreadyReleasedError, (c, w))
       | Some rows \<Rightarrow> (Inr (orders_with_items rows), (c, w)))"

definition manager_findOneOrFail :: "handle \<Rightarrow> nat \<Rightarrow> Order proc" where
  "manager_findOneOrFail h idOrder =
     atomic (\<lambda>(c, w).
       case visible h w of
         None \<Rightarrow> (Inl QueryRunnerAlreadyReleasedError, (c, w))
       | Some rows \<Rightarrow>
           (case filter (\<lambda>order. order_id order = Some idOrder) (orders_with_items rows) of
              [] \<Rightarrow> (Inl (EntityNotFoundError idOrder), (c, w))
            | order # _ \<Rightarrow> (Inr order, (c, w))))"

subsection \<open>Random numbers and observables\<close>

text \<open>
  Modelled from the spec: \<open>Math.random\<close> belongs to the JavaScript runtime. Section 9:
  the failure injected by the repository is random. \<open>Math.floor(Math.random() * 5)\<close>
  is an integer from 0 to 4 that the program does not control: the next value of a
  sequence the world holds.
\<close>

definition math_random_floor5 :: "nat proc" where
  "math_random_floor5 =
     atomic (\<lambda>(c, w). (Inr (entropy w (draws w) mod 5), (c, w\<lparr>draws := Suc (draws w)\<rparr>)))"

text \<open>
  Modelled from the spec: NestJS's \<open>CallHandler\<close> and RxJS's \<open>Observable\<close> are not
  part of the repository. Section 4.2: \<open>next.handle()\<close> is the rest of request
  processing, with lazily produced values; it runs when subscribed, emits values and
  completes, or fails. \<open>toPromise()\<close> subscribes, waits for the end and resolves with
  the last value emitted (\<open>undefined\<close> when there is none), or rejects with the
  failure. \<open>handler_observable\<close> is the observable NestJS makes of a route handler:
  it emits the handler's result.
\<close>

type_synonym 'a CallHandler = "'a list proc"

definition call_handle :: "'a CallHandler \<Rightarrow> 'a list proc" where
  "call_handle next = next"

definition toPromise :: "'a list proc \<Rightarrow> 'a option proc" where
  "toPromise observable =
     bind observable (\<lambda>emitted. Done (if emitted = [] then None else Some (last emitted)))"

definition handler_observable :: "'a proc \<Rightarrow> 'a CallHandler" where
  "handler_observable route = bind route (\<lambda>v. Done [v])"

section \<open>UnitOfWorkService\<close>

text \<open>
  \<open>getManager\<close> is synchronous. In \<open>doTransactional\<close> the source assigns the
  result of \<open>fn\<close> to the variable \<open>response\<close> inside the callback of \<open>run\<close>
  and returns the variable afterwards; here the callback returns it.
\<close>

definition getManager :: "handle proc" where
  "getManager =
     bind als_getStore (\<lambda>storage.
       if storage \<noteq> None \<and> store_has storage ''typeOrmEntityManager''
       then store_get ''typeOrmEntityManager''
       else createEntityManager)"

definition doTransactional :: "(handle \<Rightarrow> 'a proc) \<Rightarrow> 'a proc" where
  "doTransactional fn =
     await (connection_transaction (\<lambda>manager.
       bind (await (als_run Map.empty
               (bind (store_set ''typeOrmEntityManager'' manager) (\<lambda>_.
                bind (await (fn manager)) (\<lambda>response.
                Done response)))))
         (\<lambda>response. Done response)))"

definition doTransactionalCallHandler :: "'a CallHandler \<Rightarrow> 'a option proc" where
  "doTransactionalCallHandler fn =
     await (connection_transaction (\<lambda>manager.
       bind (await (als_run Map.empty
               (bind (store_set ''typeOrmEntityManager'' manager) (\<lambda>_.
                bind (await (toPromise (call_handle fn))) (\<lambda>response.
                Done response)))))
         (\<lambda>response. Done response)))"

section \<open>TransactionStorageInterceptor\<close>

definition intercept :: "'c \<Rightarrow> 'a CallHandler \<Rightarrow> 'a option proc" where
  "intercept context next = doTransactionalCallHandler next"

section \<open>OrderRepository\<close>

definition OrderRepository_getAll :: "Order list proc" where
  "OrderRepository_getAll = bind getManager (\<lambda>manager. manager_find manager)"

definition OrderRepository_getById :: "nat \<Rightarrow> Order proc" where
  "OrderRepository_getById idOrder =
     bind getManager (\<lambda>manager. manager_findOneOrFail manager idOrder)"

definition OrderRepository_saveOrder :: "Order \<Rightarrow> Order proc" where
  "OrderRepository_saveOrder order = bind getManager (\<lambda>manager. manager_save_order manager order)"

definition OrderRepository_saveOrderItem :: "Item \<Rightarrow> Item proc" where
  "OrderRepository_saveOrderItem item =
     bind math_random_floor5 (\<lambda>rand.
       if rand \<le> 2 then Fail (HttpException ''xablau'' 500)
       else bind getManager (\<lambda>manager. manager_save_item manager item))"

section \<open>OrderService\<close>

definition OrderService_getAll :: "Order list proc" where
  "OrderService_getAll = OrderRepository_getAll"

definition OrderService_getById :: "nat \<Rightarrow> Order proc" where
  "OrderService_getById idOrder = OrderRepository_getById idOrder"

text \<open>The loop of \<open>createOrder\<close> over \<open>orderDto.items\<close>.\<close>

primrec createOrder_items :: "Order \<Rightarrow> ItemDto list \<Rightarrow> unit proc" where
  "createOrder_items order [] = Done ()"
| "createOrder_items order (itemDto # rest) =
     (let item = Item None (dto_name itemDto) (dto_quantity itemDto) (Some order) in
      bind (await (OrderRepository_saveOrderItem item)) (\<lambda>_.
      createOrder_items order rest))"

definition OrderService_createOrder :: "CreateOrderRequestDto \<Rightarrow> Order proc" where
  "OrderService_createOrder orderDto =
     (let order = Order None (dto_date orderDto) (dto_description orderDto) None in
      bind (await (OrderRepository_saveOrder order)) (\<lambda>order.
      bind (createOrder_items order (dto_items orderDto)) (\<lambda>_.
      Done order)))"

section \<open>OrderController\<close>

definition OrderController_getById :: "nat \<Rightarrow> Order proc" where
  "OrderController_getById idOrder = OrderService_getById idOrder"

definition OrderController_createFirstWay :: "CreateOrderRequestDto \<Rightarrow> Order proc" where
  "OrderController_createFirstWay orderDto =
     doTransactional (\<lambda>_. OrderService_createOrder orderDto)"

text \<open>
  \<open>createSecondWay\<close> is the route handler \<open>createOrder(orderDto)\<close> behind
  \<open>@UseInterceptors(TransactionStorageInterceptor)\<close>.
\<close>

definition OrderController_createSecondWay :: "CreateOrderRequestDto \<Rightarrow> Order option proc" where
  "OrderController_createSecondWay orderDto =
     intercept () (handler_observable (OrderService_createOrder orderDto))"

section \<open>Worlds\<close>

text \<open>
  The world of a fresh database and a fresh process; \<open>ent\<close> is the sequence of the
  random draws to come.
\<close>

definition initial_world :: "(nat \<Rightarrow> nat) \<Rightarrow> world" where
  "initial_world ent =
     \<lparr>committed = [], pending = (\<lambda>_. None), next_tx = 0, next_manager = 0,
      next_order_id = 1, next_item_id = 1, events = [], entropy = ent, draws = 0\<rparr>"



text \<open>Whether the rows hold an order with the identifier.\<close>

definition has_order :: "(handle \<times> row) list \<Rightarrow> nat \<Rightarrow> bool" where
  "has_order rows i = list_ex (\<lambda>x. case snd x of OrderRow j _ _ \<Rightarrow> j = i | ItemRow _ _ _ _ \<Rightarrow> False) rows"

text \<open>
  The counters of the tables are ahead of every committed row: no committed row has the
  identifier that the next insert will take, or refers to the order that the next insert
  will create.
\<close>

definition row_fresh :: "world \<Rightarrow> row \<Rightarrow> bool" where
  "row_fresh w r =
     (case r of
        OrderRow i _ _ \<Rightarrow> i < next_order_id w
      | ItemRow j _ _ fk \<Rightarrow> j < next_item_id w \<and> (case fk of None \<Rightarrow> True | Some k \<Rightarrow> k < next_order_id w))"

definition ids_fresh :: "world \<Rightarrow> bool" where
  "ids_fresh w = list_all (\<lambda>x. row_fresh w (snd x)) (committed w)"

section \<open>Work functions\<close>

text \<open>
  The work a caller hands to \<open>doTransactional\<close>: code of a controller, service or
  repository. It returns, throws, suspends, catches, asks the unit of work for the
  ambient handle, reads and writes through a handle, draws a random number, and may call
  \<open>doTransactional\<close> again. It has no access to the private \<open>asyncLocalStorage\<close>.
\<close>

datatype 'a work =
    Return 'a
  | Throw error
  | Suspend "'a work"
  | TryCatch "'a work" "error \<Rightarrow> 'a work" "'a \<Rightarrow> 'a work"
  | CallGetManager "handle \<Rightarrow> 'a work"
  | SaveOrder handle Order "Order \<Rightarrow> 'a work"
  | SaveItem handle Item "Item \<Rightarrow> 'a work"
  | Find handle "Order list \<Rightarrow> 'a work"
  | FindOneOrFail handle nat "Order \<Rightarrow> 'a work"
  | Random "nat \<Rightarrow> 'a work"
  | CallDoTransactional "handle \<Rightarrow> 'a work" "'a \<Rightarrow> 'a work"

primrec perform :: "'a work \<Rightarrow> 'a proc" where
  "perform (Return v) = Done v"
| "perform (Throw e) = Fail e"
| "perform (Suspend w) = Yield (perform w)"
| "perform (TryCatch body handler k) =
     bind (settle (perform body) Done (\<lambda>e. perform (handler e))) (\<lambda>v. perform (k v))"
| "perform (CallGetManager k) = bind getManager (\<lambda>h. perform (k h))"
| "perform (SaveOrder h order k) = bind (await (manager_save_order h order)) (\<lambda>r. perform (k r))"
| "perform (SaveItem h item k) = bind (await (manager_save_item h item)) (\<lambda>r. perform (k r))"
| "perform (Find h k) = bind (await (manager_find h)) (\<lambda>r. perform (k r))"
| "perform (FindOneOrFail h i k) = bind (await (manager_findOneOrFail h i)) (\<lambda>r. perform (k r))"
| "perform (Random k) = bind math_random_floor5 (\<lambda>r. perform (k r))"
| "perform (CallDoTransactional fn k) =
     bind (await (doTransactional (\<lambda>manager. perform (fn manager)))) (\<lambda>v. perform (k v))"


section \<open>Interleaved logical executions\<close>

text \<open>
  Several logical executions (requests) are in flight on one thread. Each has its own
  current store, which is what \<open>AsyncLocalStorage\<close> provides, and all share the world.
  A schedule names which execution takes the next step; it may change after every
  atomic step, which includes every interleaving that changes only at an \<open>await\<close>.
  \<open>opened_by\<close> records which execution's step began each transaction.
\<close>

type_synonym task = nat

record 'a conf =
  shared :: world
  ctx_of :: "task \<Rightarrow> store option"
  proc_of :: "task \<Rightarrow> 'a proc"
  opened_by :: "nat \<Rightarrow> task option"

definition step_task :: "task \<Rightarrow> 'a conf \<Rightarrow> 'a conf" where
  "step_task t cf =
     (case proc_of cf t of
        Done v \<Rightarrow> cf
      | Fail e \<Rightarrow> cf
      | Yield p \<Rightarrow> cf\<lparr>proc_of := (proc_of cf)(t := p)\<rparr>
      | Step u n \<Rightarrow>
          (let s = (ctx_of cf t, shared cf); s' = u s in
           cf\<lparr>shared := snd s',
              ctx_of := (ctx_of cf)(t := fst s'),
              proc_of := (proc_of cf)(t := n s),
              opened_by := (\<lambda>k. if next_tx (shared cf) \<le> k \<and> k < next_tx (snd s')
                                 then Some t else opened_by cf k)\<rparr>))"

definition run_schedule :: "task list \<Rightarrow> 'a conf \<Rightarrow> 'a conf" where
  "run_schedule sched cf = foldl (\<lambda>cf t. step_task t cf) cf sched"

definition start :: "world \<Rightarrow> (task \<Rightarrow> 'a proc) \<Rightarrow> 'a conf" where
  "start w ps = \<lparr>shared = w, ctx_of = (\<lambda>_. None), proc_of = ps, opened_by = (\<lambda>_. None)\<rparr>"

text \<open>What \<open>getManager()\<close> returns to execution \<open>t\<close> when called in configuration \<open>cf\<close>.\<close>

definition ambient :: "'a conf \<Rightarrow> task \<Rightarrow> error + handle" where
  "ambient cf t = fst (exec getManager (ctx_of cf t, shared cf))"

text \<open>
  The invariant of isolation. \<open>own\<close> is the set of the transactions that one execution
  has begun. A store belongs to the execution when every transaction handle in it is one
  of these. A computation keeps to its own handles when each of its steps, run from any
  world and any current store that belongs to the execution, never lowers the counter of
  transactions and leaves a current store that belongs to the execution, counting the
  transactions begun by the step as its own.
\<close>

definition own_ctx :: "nat set \<Rightarrow> store option \<Rightarrow> bool" where
  "own_ctx own c \<longleftrightarrow> (\<forall>m k n. c = Some m \<longrightarrow> m k = Some (TxManager n) \<longrightarrow> n \<in> own)"

primrec keeps_own :: "'a proc \<Rightarrow> nat set \<Rightarrow> bool" where
  "keeps_own (Done v) own = True"
| "keeps_own (Fail e) own = True"
| "keeps_own (Yield p) own = keeps_own p own"
| "keeps_own (Step u n) own =
     (\<forall>c w. own_ctx own c \<longrightarrow>
        next_tx w \<le> next_tx (snd (u (c, w))) \<and>
        own_ctx (own \<union> {next_tx w ..< next_tx (snd (u (c, w)))}) (fst (u (c, w))) \<and>
        keeps_own (n (c, w)) (own \<union> {next_tx w ..< next_tx (snd (u (c, w)))}))"

definition owned :: "'a conf \<Rightarrow> task \<Rightarrow> nat set" where
  "owned cf t = {k. opened_by cf k = Some t}"

definition isolated :: "'a conf \<Rightarrow> bool" where
  "isolated cf \<longleftrightarrow>
     (\<forall>k t. opened_by cf k = Some t \<longrightarrow> k < next_tx (shared cf)) \<and>
     (\<forall>t. own_ctx (owned cf t) (ctx_of cf t) \<and> keeps_own (proc_of cf t) (owned cf t))"

section \<open>Example work\<close>


text \<open>A unit of work that writes an order and returns it.\<close>

definition save_work :: "handle \<Rightarrow> Order proc" where
  "save_work manager =
     manager_save_order manager (Order None ''2021-11-03'' ''Testing transaction'' None)"

text \<open>The order of Scenario A.\<close>

definition scenario_order :: CreateOrderRequestDto where
  "scenario_order =
     \<lparr>dto_date = ''2021-11-03'', dto_description = ''Testing transaction'',
      dto_items = [\<lparr>dto_name = ''T-Shirt'', dto_quantity = 1\<rparr>]\<rparr>"

text \<open>Two requests, each asking for the ambient handle after a suspension.\<close>

definition asking_work :: "task \<Rightarrow> handle \<Rightarrow> handle work" where
  "asking_work t manager = Suspend (CallGetManager Return)"




section \<open>Running computations\<close>

lemma exec_settle:
  "exec (settle p f g) s =
     (case exec p s of (Inr v, s') \<Rightarrow> exec (f v) s' | (Inl e, s') \<Rightarrow> exec (g e) s')"
  by (induction p arbitrary: s) simp_all

lemma exec_bind:
  "exec (bind p k) s =
     (case exec p s of (Inr v, s') \<Rightarrow> exec (k v) s' | (Inl e, s') \<Rightarrow> (Inl e, s'))"
  by (simp add: bind_def exec_settle split: prod.splits sum.splits)

lemma exec_await: "exec (await p) s = exec p s"
  by (simp add: await_def exec_settle split: prod.splits sum.splits)

lemma exec_atomic: "exec (atomic f) s = f s"
  by (simp add: atomic_def split: sum.splits) (metis prod.collapse)

lemmas exec_simps = exec_bind exec_await exec_atomic exec_settle

lemmas world_defs = initial_world_def begin_world_def commit_world_def rollback_world_def

lemmas manager_defs = manager_save_order_def manager_save_item_def manager_find_def
  manager_findOneOrFail_def write_row_def visible_def upsert_def apply_writes_def

lemma exec_getManager:
  "exec getManager (c, w) =
     (case c of
        None \<Rightarrow> (Inr (PlainManager (next_manager w)), (c, w\<lparr>next_manager := Suc (next_manager w)\<rparr>))
      | Some m \<Rightarrow>
          (case m ''typeOrmEntityManager'' of
             None \<Rightarrow> (Inr (PlainManager (next_manager w)), (c, w\<lparr>next_manager := Suc (next_manager w)\<rparr>))
           | Some h \<Rightarrow> (Inr h, (c, w))))"
  by (simp add: getManager_def als_getStore_def store_has_def store_get_def createEntityManager_def
      exec_simps split: option.splits)

lemma exec_als_run:
  "exec (als_run m p) (c, w) =
     (case exec p (Some m, w) of (r, (c', w')) \<Rightarrow> (r, (c, w')))"
  by (simp add: als_run_def and_finally_def als_getStore_def als_enter_def exec_simps
      split: prod.splits sum.splits)

lemma exec_doTransactional:
  "exec (doTransactional fn) (c, w) =
     (case exec (fn (TxManager (next_tx w)))
             (Some [''typeOrmEntityManager'' \<mapsto> TxManager (next_tx w)], begin_world w) of
        (Inr v, (c', w')) \<Rightarrow> (Inr v, (c, commit_world (next_tx w) w'))
      | (Inl e, (c', w')) \<Rightarrow> (Inl e, (c, rollback_world (next_tx w) w')))"
  by (simp add: doTransactional_def connection_transaction_def startTransaction_def
      commitTransaction_def rollbackTransaction_def store_set_def exec_als_run exec_simps
      split: prod.splits sum.splits)

lemma exec_doTransactionalCallHandler:
  "exec (doTransactionalCallHandler next) (c, w) =
     (case exec (toPromise (call_handle next))
             (Some [''typeOrmEntityManager'' \<mapsto> TxManager (next_tx w)], begin_world w) of
        (Inr v, (c', w')) \<Rightarrow> (Inr v, (c, commit_world (next_tx w) w'))
      | (Inl e, (c', w')) \<Rightarrow> (Inl e, (c, rollback_world (next_tx w) w')))"
  by (simp add: doTransactionalCallHandler_def connection_transaction_def startTransaction_def
      commitTransaction_def rollbackTransaction_def store_set_def exec_als_run exec_simps
      split: prod.splits sum.splits)

section \<open>Worlds: commit, rollback and well-formedness\<close>

lemma begin_world_simps [simp]:
  "committed (begin_world w) = committed w"
  "pending (begin_world w) = (pending w)(next_tx w \<mapsto> [])"
  "next_tx (begin_world w) = Suc (next_tx w)"
  "events (begin_world w) = events w @ [Begin (next_tx w)]"
  by (simp_all add: begin_world_def)

lemma commit_world_simps [simp]:
  "committed (commit_world n w) =
     apply_writes (committed w) (case pending w n of None \<Rightarrow> [] | Some ws \<Rightarrow> ws)"
  "pending (commit_world n w) = (pending w)(n := None)"
  "next_tx (commit_world n w) = next_tx w"
  "events (commit_world n w) = events w @ [Commit n]"
  by (simp_all add: commit_world_def)

lemma rollback_world_simps [simp]:
  "committed (rollback_world n w) = committed w"
  "pending (rollback_world n w) = (pending w)(n := None)"
  "next_tx (rollback_world n w) = next_tx w"
  "events (rollback_world n w) = events w @ [Rollback n]"
  by (simp_all add: rollback_world_def)



lemma apply_writes_Nil [simp]: "apply_writes rows [] = rows"
  by (simp add: apply_writes_def)













section \<open>What work leaves behind\<close>























section \<open>Work that keeps to one handle\<close>









section \<open>doTransactional on failure\<close>




lemma world_counters [simp]:
  "next_manager (begin_world w) = next_manager w"
  "next_order_id (begin_world w) = next_order_id w"
  "next_item_id (begin_world w) = next_item_id w"
  "entropy (begin_world w) = entropy w"
  "draws (begin_world w) = draws w"
  "next_manager (commit_world n w) = next_manager w"
  "next_order_id (commit_world n w) = next_order_id w"
  "next_item_id (commit_world n w) = next_item_id w"
  "entropy (commit_world n w) = entropy w"
  "draws (commit_world n w) = draws w"
  "next_manager (rollback_world n w) = next_manager w"
  "next_order_id (rollback_world n w) = next_order_id w"
  "next_item_id (rollback_world n w) = next_item_id w"
  "entropy (rollback_world n w) = entropy w"
  "draws (rollback_world n w) = draws w"
  by (simp_all add: begin_world_def commit_world_def rollback_world_def)

section \<open>getManager\<close>

text \<open>
  Claim C3. \<open>getManager\<close> returns the handle that the current store holds under
  \<open>'typeOrmEntityManager'\<close> and changes nothing; with no store, or a store without that
  key, it returns a plain manager made by \<open>createEntityManager\<close>. It never fails, and
  two calls outside every scope return two different plain managers.
\<close>

theorem getManager_ambient_or_default:
  "exec getManager (c, w) =
     (case c of
        None \<Rightarrow> (Inr (PlainManager (next_manager w)), (c, w\<lparr>next_manager := Suc (next_manager w)\<rparr>))
      | Some m \<Rightarrow>
          (case m ''typeOrmEntityManager'' of
             None \<Rightarrow> (Inr (PlainManager (next_manager w)), (c, w\<lparr>next_manager := Suc (next_manager w)\<rparr>))
           | Some h \<Rightarrow> (Inr h, (c, w))))
   \<and> (\<forall>e. fst (exec getManager (c, w)) \<noteq> Inl e)
   \<and> fst (exec (bind getManager (\<lambda>first. bind getManager (\<lambda>second. Done (first \<noteq> second)))) (None, w))
       = Inr True"
  by (simp add: exec_getManager exec_simps split: option.splits)

section \<open>doTransactional on success\<close>

text \<open>
  Claim C4. When the work function returns \<open>v\<close> inside the transaction that
  \<open>doTransactional\<close> opened for it, \<open>doTransactional\<close> returns the same \<open>v\<close>,
  and the world is the one the work left with that transaction committed: the commit is
  the next event, the transaction is closed, and its pending writes are applied to the
  committed rows.
\<close>

theorem doTransactional_success_commits:
  assumes "exec (fn (TxManager (next_tx w)))
             (Some [''typeOrmEntityManager'' \<mapsto> TxManager (next_tx w)], begin_world w) = (Inr v, (c', w'))"
  shows "exec (doTransactional fn) (c, w) = (Inr v, (c, commit_world (next_tx w) w'))
     \<and> events (commit_world (next_tx w) w') = events w' @ [Commit (next_tx w)]
     \<and> pending (commit_world (next_tx w) w') (next_tx w) = None
     \<and> committed (commit_world (next_tx w) w')
         = apply_writes (committed w') (case pending w' (next_tx w) of None \<Rightarrow> [] | Some ws \<Rightarrow> ws)"
  using assms by (simp add: exec_doTransactional)

theorem doTransactional_success_commits_witness:
  "exec (doTransactional save_work) (None, initial_world (\<lambda>_. 0))
     = (Inr (Order (Some 1) ''2021-11-03'' ''Testing transaction'' None),
        (None, commit_world 0 ((begin_world (initial_world (\<lambda>_. 0)))
           \<lparr>next_order_id := 2,
             pending := (pending (begin_world (initial_world (\<lambda>_. 0))))
               (0 \<mapsto> [(TxManager 0, OrderRow 1 ''2021-11-03'' ''Testing transaction'')])\<rparr>)))
   \<and> committed (snd (snd (exec (doTransactional save_work) (None, initial_world (\<lambda>_. 0)))))
     = [(TxManager 0, OrderRow 1 ''2021-11-03'' ''Testing transaction'')]"
proof -
  let ?w = "initial_world (\<lambda>_. 0)"
  let ?w' = "(begin_world ?w)\<lparr>next_order_id := 2,
             pending := (pending (begin_world ?w))
               (0 \<mapsto> [(TxManager 0, OrderRow 1 ''2021-11-03'' ''Testing transaction'')])\<rparr>"
  have n: "next_tx ?w = 0" by (simp add: initial_world_def)
  have h: "exec (save_work (TxManager (next_tx ?w)))
             (Some [''typeOrmEntityManager'' \<mapsto> TxManager (next_tx ?w)], begin_world ?w)
           = (Inr (Order (Some 1) ''2021-11-03'' ''Testing transaction'' None),
              (Some [''typeOrmEntityManager'' \<mapsto> TxManager (next_tx ?w)], ?w'))"
    by (simp add: save_work_def exec_simps world_defs manager_defs Let_def)
  from doTransactional_success_commits
         [where fn = save_work and w = "initial_world (\<lambda>_. 0)" and c = None, OF h] n
  show ?thesis by (simp add: world_defs manager_defs)
qed

section \<open>The scope of doTransactional\<close>

text \<open>
  Claim C6. Whatever the work does and however it ends, the caller's current store after
  \<open>doTransactional\<close> is the one before it. Inside, the new store shadows the caller's:
  \<open>getManager\<close> returns the new transaction's handle. After the call, on the success
  path and on the failure path alike, \<open>getManager\<close> answers from the caller's store
  again; with a handle \<open>h\<close> in the caller's store it returns \<open>h\<close>.
\<close>

theorem doTransactional_scope_restored:
  "fst (snd (exec (doTransactional fn) (c, w))) = c
   \<and> fst (exec (doTransactional (\<lambda>_. getManager)) (c, w)) = Inr (TxManager (next_tx w))
   \<and> fst (exec (settle (doTransactional fn) (\<lambda>_. getManager) (\<lambda>_. getManager)) (c, w))
       = fst (exec getManager (c, snd (snd (exec (doTransactional fn) (c, w)))))
   \<and> fst (exec (settle (doTransactional fn) (\<lambda>_. getManager) (\<lambda>_. getManager))
            (Some [''typeOrmEntityManager'' \<mapsto> h], w)) = Inr h"
proof -
  obtain r c2 w2 where b: "exec (fn (TxManager (next_tx w)))
      (Some [''typeOrmEntityManager'' \<mapsto> TxManager (next_tx w)], begin_world w) = (r, (c2, w2))"
    by (metis prod.exhaust)
  show ?thesis
    by (cases r) (simp_all add: exec_doTransactional exec_getManager exec_settle b)
qed

section \<open>Nested calls\<close>

text \<open>
  Claim C7. Every call of \<open>doTransactional\<close>, whatever the caller's store, begins the
  transaction numbered by the world's counter and runs the work in a new store that holds
  only that transaction's handle. A call nested in another gets a handle different from
  the enclosing one, and \<open>getManager\<close> inside it returns the inner handle; the inner
  transaction commits on its own, before the outer one ends. It is independent: when the
  outer work fails after the inner call has returned, the outer transaction is rolled
  back and the row written by the inner one stays committed.
\<close>

theorem nested_doTransactional_independent:
  "exec (doTransactional fn) (c, w) =
     (case exec (fn (TxManager (next_tx w)))
             (Some [''typeOrmEntityManager'' \<mapsto> TxManager (next_tx w)], begin_world w) of
        (Inr v, (c', w')) \<Rightarrow> (Inr v, (c, commit_world (next_tx w) w'))
      | (Inl e, (c', w')) \<Rightarrow> (Inl e, (c, rollback_world (next_tx w) w')))
   \<and> exec (doTransactional (\<lambda>outer. doTransactional (\<lambda>inner.
              bind getManager (\<lambda>ambient. Done (outer, inner, ambient))))) (c, w)
       = (Inr (TxManager (next_tx w), TxManager (Suc (next_tx w)), TxManager (Suc (next_tx w))),
          (c, commit_world (next_tx w) (commit_world (Suc (next_tx w)) (begin_world (begin_world w)))))
   \<and> events (commit_world (next_tx w) (commit_world (Suc (next_tx w)) (begin_world (begin_world w))))
       = events w @ [Begin (next_tx w), Begin (Suc (next_tx w)), Commit (Suc (next_tx w)), Commit (next_tx w)]
   \<and> exec (doTransactional (\<lambda>outer. doTransactionalCallHandler (handler_observable
              (bind getManager (\<lambda>ambient. Done (outer, ambient)))))) (c, w)
       = (Inr (Some (TxManager (next_tx w), TxManager (Suc (next_tx w)))),
          (c, commit_world (next_tx w) (commit_world (Suc (next_tx w)) (begin_world (begin_world w)))))
   \<and> fst (exec (doTransactional (\<lambda>outer.
              bind (doTransactional (\<lambda>inner. manager_save_order inner (Order None d ds None)))
                (\<lambda>saved. Fail e))) (c, w)) = Inl e
   \<and> events (snd (snd (exec (doTransactional (\<lambda>outer.
              bind (doTransactional (\<lambda>inner. manager_save_order inner (Order None d ds None)))
                (\<lambda>saved. Fail e))) (c, w))))
       = events w @ [Begin (next_tx w), Begin (Suc (next_tx w)), Commit (Suc (next_tx w)), Rollback (next_tx w)]
   \<and> (TxManager (Suc (next_tx w)), OrderRow (next_order_id w) d ds)
       \<in> set (committed (snd (snd (exec (doTransactional (\<lambda>outer.
              bind (doTransactional (\<lambda>inner. manager_save_order inner (Order None d ds None)))
                (\<lambda>saved. Fail e))) (c, w)))))"
  by (simp add: exec_doTransactional exec_doTransactionalCallHandler handler_observable_def
      call_handle_def toPromise_def exec_getManager exec_simps manager_defs Let_def)

section \<open>The handle as a parameter\<close>

text \<open>
  Claim C10. \<open>doTransactional\<close> calls the work function with the handle of the
  transaction it has just begun: a work function that returns its parameter returns that
  handle. The parameter and the ambient handle are the same, so a work function may take
  either. A work function that uses its parameter does not need the store: it receives
  the handle even after the current store has been taken away.
\<close>

theorem doTransactional_passes_manager:
  "exec (doTransactional (\<lambda>manager. Done manager)) (c, w)
     = (Inr (TxManager (next_tx w)), (c, commit_world (next_tx w) (begin_world w)))
   \<and> exec (doTransactional (\<lambda>manager. bind getManager (\<lambda>ambient. Done (manager, ambient)))) (c, w)
     = (Inr (TxManager (next_tx w), TxManager (next_tx w)), (c, commit_world (next_tx w) (begin_world w)))
   \<and> exec (doTransactional (\<lambda>manager. bind getManager fn)) (c, w) = exec (doTransactional fn) (c, w)
   \<and> exec (doTransactional (\<lambda>manager. bind (als_enter None) (\<lambda>_. Done manager))) (c, w)
     = (Inr (TxManager (next_tx w)), (c, commit_world (next_tx w) (begin_world w)))"
  by (simp add: exec_doTransactional exec_getManager exec_simps als_enter_def)

section \<open>The interceptor\<close>

text \<open>
  Claim C5. \<open>doTransactionalCallHandler\<close>, and \<open>intercept\<close> which only calls it, is
  \<open>doTransactional\<close> applied to the work "subscribe to \<open>next.handle()\<close> and wait for
  its end". The whole observable runs inside the transaction scope: if it ends, the
  transaction is committed on the world it left and its last value is returned; if it
  fails anywhere, the transaction is rolled back and the same failure is raised.
\<close>

theorem doTransactionalCallHandler_as_doTransactional:
  "doTransactionalCallHandler next = doTransactional (\<lambda>manager. toPromise (call_handle next))
   \<and> intercept context next = doTransactional (\<lambda>manager. toPromise (call_handle next))
   \<and> exec (intercept context next) (c, w) =
       (case exec (call_handle next)
               (Some [''typeOrmEntityManager'' \<mapsto> TxManager (next_tx w)], begin_world w) of
          (Inr emitted, (c', w')) \<Rightarrow>
            (Inr (if emitted = [] then None else Some (last emitted)),
             (c, commit_world (next_tx w) w'))
        | (Inl e, (c', w')) \<Rightarrow> (Inl e, (c, rollback_world (next_tx w) w')))"
  by (simp add: doTransactionalCallHandler_def doTransactional_def intercept_def 
      connection_transaction_def startTransaction_def commitTransaction_def rollbackTransaction_def
      store_set_def toPromise_def exec_als_run exec_simps split: prod.splits sum.splits)

section \<open>getById\<close>

lemma order_of_row_id:
  "order \<in> set (order_of_row rows x) \<Longrightarrow> order_id order = Some i \<Longrightarrow>
     (case snd x of OrderRow j _ _ \<Rightarrow> j = i | ItemRow _ _ _ _ \<Rightarrow> False)"
  by (cases x; cases "snd x") auto

lemma no_order_no_match:
  assumes "\<not> has_order rows i"
  shows "filter (\<lambda>order. order_id order = Some i) (orders_with_items rows) = []"
proof -
  have "\<And>order. order \<in> set (orders_with_items rows) \<Longrightarrow> order_id order \<noteq> Some i"
  proof
    fix order assume "order \<in> set (orders_with_items rows)" and i: "order_id order = Some i"
    then obtain x where x: "x \<in> set rows" and o: "order \<in> set (order_of_row rows x)"
      by (auto simp: orders_with_items_def)
    from order_of_row_id [OF o i] x assms show False
      by (auto simp: has_order_def list_ex_iff)
  qed
  then show ?thesis by (simp add: filter_empty_conv)
qed

text \<open>
  Claim C9. When the rows that the ambient handle sees hold no order with the identifier,
  \<open>OrderRepository.getById\<close> fails with \<open>EntityNotFoundError\<close>. The service and the
  controller, which only call it, fail with the same error, and the world is the one
  left by the single call of \<open>getManager\<close>: nothing is tried again.
\<close>

theorem getById_not_found:
  assumes gm: "exec getManager (c, w) = (Inr manager, (c', w'))"
    and vis: "visible manager w' = Some rows"
    and none: "\<not> has_order rows idOrder"
  shows "exec (OrderRepository_getById idOrder) (c, w) = (Inl (EntityNotFoundError idOrder), (c', w'))
    \<and> exec (OrderService_getById idOrder) (c, w) = (Inl (EntityNotFoundError idOrder), (c', w'))
    \<and> exec (OrderController_getById idOrder) (c, w) = (Inl (EntityNotFoundError idOrder), (c', w'))"
  using gm vis no_order_no_match [OF none]
  by (simp add: OrderController_getById_def OrderService_getById_def OrderRepository_getById_def
      manager_findOneOrFail_def exec_simps)

theorem getById_not_found_witness:
  "exec getManager (None, initial_world (\<lambda>_. 0))
     = (Inr (PlainManager 0), (None, (initial_world (\<lambda>_. 0))\<lparr>next_manager := 1\<rparr>))
   \<and> visible (PlainManager 0) ((initial_world (\<lambda>_. 0))\<lparr>next_manager := 1\<rparr>) = Some []
   \<and> \<not> has_order [] 7
   \<and> exec (OrderRepository_getById 7) (None, initial_world (\<lambda>_. 0))
     = (Inl (EntityNotFoundError 7), (None, (initial_world (\<lambda>_. 0))\<lparr>next_manager := 1\<rparr>))"
proof -
  have h1: "exec getManager (None, initial_world (\<lambda>_. 0))
     = (Inr (PlainManager 0), (None, (initial_world (\<lambda>_. 0))\<lparr>next_manager := 1\<rparr>))"
    by (simp add: exec_getManager initial_world_def)
  have h2: "visible (PlainManager 0) ((initial_world (\<lambda>_. 0))\<lparr>next_manager := 1\<rparr>) = Some []"
    by (simp add: visible_def initial_world_def)
  have h3: "\<not> has_order [] 7" by (simp add: has_order_def)
  from getById_not_found [OF h1 h2 h3] h1 h2 h3 show ?thesis by simp
qed

section \<open>Scenario A\<close>

lemma upsert_fresh:
  "(\<And>y. y \<in> set rows \<Longrightarrow> \<not> same_key (snd y) (snd x)) \<Longrightarrow> upsert rows x = rows @ [x]"
  by (simp add: upsert_def)

lemma no_orders_with_id:
  "(\<And>x. x \<in> set R \<Longrightarrow> (case snd x of OrderRow k _ _ \<Rightarrow> k \<noteq> i | ItemRow _ _ _ _ \<Rightarrow> True)) \<Longrightarrow>
     filter (\<lambda>order. order_id order = Some i) (concat (map (order_of_row rows) R)) = []"
proof (induction R)
  case Nil
  show ?case by simp
next
  case (Cons x R)
  have "case snd x of OrderRow k _ _ \<Rightarrow> k \<noteq> i | ItemRow _ _ _ _ \<Rightarrow> True"
    by (rule Cons.prems) simp
  then have "filter (\<lambda>order. order_id order = Some i) (order_of_row rows x) = []"
    by (cases x; cases "snd x") auto
  moreover have "filter (\<lambda>order. order_id order = Some i) (concat (map (order_of_row rows) R)) = []"
    by (rule Cons.IH) (simp add: Cons.prems)
  ultimately show ?case by simp
qed

lemma no_items_of_order:
  "(\<And>x. x \<in> set R \<Longrightarrow> (case snd x of ItemRow _ _ _ fk \<Rightarrow> fk \<noteq> Some i | OrderRow _ _ _ \<Rightarrow> True)) \<Longrightarrow>
     concat (map (item_of_row i) R) = []"
proof (induction R)
  case Nil
  show ?case by simp
next
  case (Cons x R)
  have "case snd x of ItemRow _ _ _ fk \<Rightarrow> fk \<noteq> Some i | OrderRow _ _ _ \<Rightarrow> True"
    by (rule Cons.prems) simp
  then have "item_of_row i x = []"
    by (cases x; cases "snd x") auto
  moreover have "concat (map (item_of_row i) R) = []"
    by (rule Cons.IH) (simp add: Cons.prems)
  ultimately show ?case by simp
qed

lemma exec_createFirstWay_scenario:
  assumes draw: "2 < entropy w (draws w) mod 5"
  shows "exec (OrderController_createFirstWay scenario_order) (c, w) =
    (Inr (Order (Some (next_order_id w)) ''2021-11-03'' ''Testing transaction'' None),
     (c, commit_world (next_tx w) ((begin_world w)
        \<lparr>next_order_id := Suc (next_order_id w),
          next_item_id := Suc (next_item_id w),
          draws := Suc (draws w),
          pending := (pending w)(next_tx w \<mapsto>
            [(TxManager (next_tx w), OrderRow (next_order_id w) ''2021-11-03'' ''Testing transaction''),
             (TxManager (next_tx w), ItemRow (next_item_id w) ''T-Shirt'' 1 (Some (next_order_id w)))])\<rparr>)))"
  using draw
  by (simp add: OrderController_createFirstWay_def OrderService_createOrder_def scenario_order_def
      OrderRepository_saveOrder_def OrderRepository_saveOrderItem_def math_random_floor5_def
      exec_doTransactional exec_getManager exec_simps manager_defs Let_def commit_world_def)


lemma exec_createSecondWay:
  "exec (OrderController_createSecondWay orderDto) (c, w) =
     (case exec (OrderController_createFirstWay orderDto) (c, w) of
        (Inr order, s') \<Rightarrow> (Inr (Some order), s')
      | (Inl e, s') \<Rightarrow> (Inl e, s'))"
  by (simp add: OrderController_createSecondWay_def OrderController_createFirstWay_def
      intercept_def doTransactionalCallHandler_def doTransactional_def handler_observable_def
      call_handle_def toPromise_def connection_transaction_def startTransaction_def
      commitTransaction_def rollbackTransaction_def store_set_def exec_als_run exec_simps
      split: prod.splits sum.splits)

lemma fresh_rows:
  assumes "ids_fresh w" "x \<in> set (committed w)"
  shows "row_fresh w (snd x)"
  using assms by (simp add: ids_fresh_def list_all_iff)

lemma committed_after_scenario:
  assumes fresh: "ids_fresh w"
  shows "apply_writes (committed w)
           [(h, OrderRow (next_order_id w) d ds), (h, ItemRow (next_item_id w) nm q (Some (next_order_id w)))]
         = committed w @ [(h, OrderRow (next_order_id w) d ds),
                          (h, ItemRow (next_item_id w) nm q (Some (next_order_id w)))]"
proof -
  have 1: "\<And>y. y \<in> set (committed w) \<Longrightarrow> \<not> same_key (snd y) (OrderRow (next_order_id w) d ds)"
    using fresh_rows [OF fresh] by (case_tac "snd y") (fastforce simp: row_fresh_def)+
  have 2: "\<And>y. y \<in> set (committed w) \<Longrightarrow>
      \<not> same_key (snd y) (ItemRow (next_item_id w) nm q (Some (next_order_id w)))"
    using fresh_rows [OF fresh] by (case_tac "snd y") (fastforce simp: row_fresh_def)+
  have "upsert (committed w) (h, OrderRow (next_order_id w) d ds)
      = committed w @ [(h, OrderRow (next_order_id w) d ds)]"
    by (rule upsert_fresh) (simp add: 1)
  moreover have "upsert (committed w @ [(h, OrderRow (next_order_id w) d ds)])
       (h, ItemRow (next_item_id w) nm q (Some (next_order_id w)))
      = (committed w @ [(h, OrderRow (next_order_id w) d ds)])
          @ [(h, ItemRow (next_item_id w) nm q (Some (next_order_id w)))]"
  proof (rule upsert_fresh)
    fix y assume "y \<in> set (committed w @ [(h, OrderRow (next_order_id w) d ds)])"
    then have "y \<in> set (committed w) \<or> y = (h, OrderRow (next_order_id w) d ds)" by auto
    then show "\<not> same_key (snd y)
        (snd (h, ItemRow (next_item_id w) nm q (Some (next_order_id w))))"
      using 2 [of y] by auto
  qed
  ultimately show ?thesis by (simp add: apply_writes_def)
qed

lemma find_after_scenario:
  assumes fresh: "ids_fresh w"
  shows "filter (\<lambda>order. order_id order = Some (next_order_id w))
           (orders_with_items (committed w @ [(h, OrderRow (next_order_id w) d ds),
                          (h, ItemRow (next_item_id w) nm q (Some (next_order_id w)))]))
         = [Order (Some (next_order_id w)) d ds (Some [Item (Some (next_item_id w)) nm q None])]"
proof -
  let ?rows = "committed w @ [(h, OrderRow (next_order_id w) d ds),
                          (h, ItemRow (next_item_id w) nm q (Some (next_order_id w)))]"
  have 1: "filter (\<lambda>order. order_id order = Some (next_order_id w))
             (concat (map (order_of_row ?rows) (committed w))) = []"
  proof (rule no_orders_with_id)
    fix x assume "x \<in> set (committed w)"
    with fresh have "row_fresh w (snd x)" by (rule fresh_rows)
    then show "case snd x of OrderRow k _ _ \<Rightarrow> k \<noteq> next_order_id w | ItemRow _ _ _ _ \<Rightarrow> True"
      by (cases "snd x") (auto simp: row_fresh_def)
  qed
  have 2: "concat (map (item_of_row (next_order_id w)) (committed w)) = []"
  proof (rule no_items_of_order)
    fix x assume "x \<in> set (committed w)"
    with fresh have "row_fresh w (snd x)" by (rule fresh_rows)
    then show "case snd x of ItemRow _ _ _ fk \<Rightarrow> fk \<noteq> Some (next_order_id w) | OrderRow _ _ _ \<Rightarrow> True"
      by (cases "snd x") (auto simp: row_fresh_def)
  qed
  show ?thesis by (simp add: orders_with_items_def 1 2)
qed

text \<open>
  Claim C8. The code has no switch for the failure that \<open>saveOrderItem\<close> injects;
  the failure is absent when the number it draws is 3 or 4. In that case, creating the
  order of Scenario A through \<open>createFirstWay\<close>, in a world whose counters are
  ahead of its rows, returns the order with its new identifier, commits the transaction,
  and adds exactly the order row and its item row to the committed rows. Afterwards
  \<open>getById\<close> of that identifier returns the order with its one item. The route
  \<open>createSecondWay\<close> does the same and returns the same order.
\<close>

theorem createOrder_scenario_A:
  assumes draw: "2 < entropy w (draws w) mod 5" and fresh: "ids_fresh w"
  shows "fst (exec (OrderController_createFirstWay scenario_order) (None, w))
      = Inr (Order (Some (next_order_id w)) ''2021-11-03'' ''Testing transaction'' None)
    \<and> (let w' = snd (snd (exec (OrderController_createFirstWay scenario_order) (None, w))) in
         committed w' = committed w @
           [(TxManager (next_tx w), OrderRow (next_order_id w) ''2021-11-03'' ''Testing transaction''),
            (TxManager (next_tx w), ItemRow (next_item_id w) ''T-Shirt'' 1 (Some (next_order_id w)))]
         \<and> last (events w') = Commit (next_tx w)
         \<and> fst (exec (OrderController_getById (next_order_id w)) (None, w'))
             = Inr (Order (Some (next_order_id w)) ''2021-11-03'' ''Testing transaction''
                      (Some [Item (Some (next_item_id w)) ''T-Shirt'' 1 None])))
    \<and> exec (OrderController_createSecondWay scenario_order) (None, w)
      = (Inr (Some (Order (Some (next_order_id w)) ''2021-11-03'' ''Testing transaction'' None)),
         snd (exec (OrderController_createFirstWay scenario_order) (None, w)))"
  using committed_after_scenario [OF fresh] find_after_scenario [OF fresh]
  by (simp add: exec_createSecondWay exec_createFirstWay_scenario [OF draw] 
      OrderController_getById_def OrderService_getById_def OrderRepository_getById_def
      manager_findOneOrFail_def visible_def exec_getManager exec_simps)

theorem createOrder_scenario_A_witness:
  "2 < entropy (initial_world (\<lambda>_. 3)) (draws (initial_world (\<lambda>_. 3))) mod 5
   \<and> ids_fresh (initial_world (\<lambda>_. 3))
   \<and> fst (exec (OrderController_createFirstWay scenario_order) (None, initial_world (\<lambda>_. 3)))
      = Inr (Order (Some 1) ''2021-11-03'' ''Testing transaction'' None)
   \<and> committed (snd (snd (exec (OrderController_createFirstWay scenario_order) (None, initial_world (\<lambda>_. 3)))))
      = [(TxManager 0, OrderRow 1 ''2021-11-03'' ''Testing transaction''),
         (TxManager 0, ItemRow 1 ''T-Shirt'' 1 (Some 1))]
   \<and> fst (exec (OrderController_getById 1)
        (None, snd (snd (exec (OrderController_createFirstWay scenario_order) (None, initial_world (\<lambda>_. 3))))))
      = Inr (Order (Some 1) ''2021-11-03'' ''Testing transaction'' (Some [Item (Some 1) ''T-Shirt'' 1 None]))"
proof -
  have h1: "2 < entropy (initial_world (\<lambda>_. 3)) (draws (initial_world (\<lambda>_. 3))) mod 5"
    by (simp add: initial_world_def)
  have h2: "ids_fresh (initial_world (\<lambda>_. 3))"
    by (simp add: ids_fresh_def initial_world_def)
  have n: "next_order_id (initial_world (\<lambda>_. 3)) = 1" "next_item_id (initial_world (\<lambda>_. 3)) = 1"
    "next_tx (initial_world (\<lambda>_. 3)) = 0" "committed (initial_world (\<lambda>_. 3)) = []"
    by (simp_all add: initial_world_def)
  from createOrder_scenario_A [OF h1 h2] h1 h2 show ?thesis
    by (simp add: Let_def n)
qed

section \<open>Isolation of interleaved executions\<close>

lemma run_schedule_Cons: "run_schedule (t # sched) cf = run_schedule sched (step_task t cf)"
  by (simp add: run_schedule_def)

text \<open>
  An execution that runs alone under the schedule ends as \<open>exec\<close> says: the two
  ways of running a computation agree.
\<close>

lemma run_alone_exec:
  "proc_of cf t = p \<Longrightarrow>
   \<exists>k. shared (run_schedule (replicate k t) cf) = snd (snd (exec p (ctx_of cf t, shared cf)))
     \<and> ctx_of (run_schedule (replicate k t) cf) t = fst (snd (exec p (ctx_of cf t, shared cf)))
     \<and> proc_of (run_schedule (replicate k t) cf) t
         = (case fst (exec p (ctx_of cf t, shared cf)) of Inr v \<Rightarrow> Done v | Inl e \<Rightarrow> Fail e)"
proof (induction p arbitrary: cf)
  case (Done v)
  then show ?case by (intro exI [of _ 0]) (simp add: run_schedule_def)
next
  case (Fail e)
  then show ?case by (intro exI [of _ 0]) (simp add: run_schedule_def)
next
  case (Yield p)
  let ?cf = "step_task t cf"
  have cf': "proc_of ?cf t = p" "ctx_of ?cf t = ctx_of cf t" "shared ?cf = shared cf"
    using Yield.prems by (simp_all add: step_task_def)
  from Yield.IH [OF cf'(1)] obtain k where
    "shared (run_schedule (replicate k t) ?cf) = snd (snd (exec p (ctx_of ?cf t, shared ?cf)))
     \<and> ctx_of (run_schedule (replicate k t) ?cf) t = fst (snd (exec p (ctx_of ?cf t, shared ?cf)))
     \<and> proc_of (run_schedule (replicate k t) ?cf) t
         = (case fst (exec p (ctx_of ?cf t, shared ?cf)) of Inr v \<Rightarrow> Done v | Inl e \<Rightarrow> Fail e)"
    by blast
  then show ?case
    by (intro exI [of _ "Suc k"]) (simp add: run_schedule_Cons cf')
next
  case (Step u n)
  let ?s = "(ctx_of cf t, shared cf)"
  let ?cf = "step_task t cf"
  have cf': "proc_of ?cf t = n ?s" "ctx_of ?cf t = fst (u ?s)" "shared ?cf = snd (u ?s)"
    using Step.prems by (simp_all add: step_task_def Let_def)
  from Step.IH [OF rangeI cf'(1)] obtain k where
    "shared (run_schedule (replicate k t) ?cf) = snd (snd (exec (n ?s) (ctx_of ?cf t, shared ?cf)))
     \<and> ctx_of (run_schedule (replicate k t) ?cf) t = fst (snd (exec (n ?s) (ctx_of ?cf t, shared ?cf)))
     \<and> proc_of (run_schedule (replicate k t) ?cf) t
         = (case fst (exec (n ?s) (ctx_of ?cf t, shared ?cf)) of Inr v \<Rightarrow> Done v | Inl e \<Rightarrow> Fail e)"
    by blast
  then show ?case
    by (intro exI [of _ "Suc k"]) (simp add: run_schedule_Cons cf')
qed

lemma own_ctx_mono: "own_ctx own c \<Longrightarrow> own \<subseteq> own' \<Longrightarrow> own_ctx own' c"
  unfolding own_ctx_def by blast

lemma own_ctx_None [simp]: "own_ctx own None"
  by (simp add: own_ctx_def)

lemma own_ctx_empty [simp]: "own_ctx own (Some Map.empty)"
  by (simp add: own_ctx_def)

lemma own_ctx_set:
  "own_ctx own (Some m) \<Longrightarrow> n \<in> own \<Longrightarrow> own_ctx own (Some (m(k \<mapsto> TxManager n)))"
  unfolding own_ctx_def by (auto split: if_splits)

lemma keeps_own_settle:
  assumes "keeps_own p own"
    and "\<And>v own'. own \<subseteq> own' \<Longrightarrow> keeps_own (f v) own'"
    and "\<And>e own'. own \<subseteq> own' \<Longrightarrow> keeps_own (g e) own'"
  shows "keeps_own (settle p f g) own"
  using assms
proof (induction p arbitrary: own)
  case (Done v)
  then show ?case by simp
next
  case (Fail e)
  then show ?case by simp
next
  case (Yield p)
  then show ?case by simp
next
  case (Step u n)
  show ?case
    unfolding settle.simps keeps_own.simps
  proof (intro allI impI)
    fix c w assume c: "own_ctx own c"
    let ?own' = "own \<union> {next_tx w ..< next_tx (snd (u (c, w)))}"
    from Step.prems(1) c have 1: "next_tx w \<le> next_tx (snd (u (c, w)))"
      and 2: "own_ctx ?own' (fst (u (c, w)))" and 3: "keeps_own (n (c, w)) ?own'"
      by auto
    have "keeps_own (settle (n (c, w)) f g) ?own'"
    proof (rule Step.IH [OF rangeI 3])
      fix v own' assume "?own' \<subseteq> own'"
      then show "keeps_own (f v) own'" by (intro Step.prems(2)) auto
    next
      fix e own' assume "?own' \<subseteq> own'"
      then show "keeps_own (g e) own'" by (intro Step.prems(3)) auto
    qed
    with 1 2 show "next_tx w \<le> next_tx (snd (u (c, w))) \<and> own_ctx ?own' (fst (u (c, w))) \<and>
        keeps_own (settle (n (c, w)) f g) ?own'" by simp
  qed
qed

lemma keeps_own_bind:
  assumes "keeps_own p own" and "\<And>v own'. own \<subseteq> own' \<Longrightarrow> keeps_own (k v) own'"
  shows "keeps_own (bind p k) own"
  unfolding bind_def using assms by (intro keeps_own_settle) simp_all

lemma keeps_own_await: "keeps_own p own \<Longrightarrow> keeps_own (await p) own"
  unfolding await_def by (rule keeps_own_settle) simp_all

lemma keeps_own_atomic:
  assumes "\<And>c w. own_ctx own c \<Longrightarrow> fst (snd (f (c, w))) = c \<and> next_tx (snd (snd (f (c, w)))) = next_tx w"
  shows "keeps_own (atomic f) own"
  using assms by (auto simp: atomic_def split: sum.splits)

lemma keeps_own_bind_atomic:
  "keeps_own (bind (atomic f) k) own =
     (\<forall>c w. own_ctx own c \<longrightarrow>
        next_tx w \<le> next_tx (snd (snd (f (c, w)))) \<and>
        own_ctx (own \<union> {next_tx w ..< next_tx (snd (snd (f (c, w))))}) (fst (snd (f (c, w)))) \<and>
        (case fst (f (c, w)) of
           Inl e \<Rightarrow> True
         | Inr v \<Rightarrow> keeps_own (k v) (own \<union> {next_tx w ..< next_tx (snd (snd (f (c, w))))})))"
  by (simp add: bind_def atomic_def split: sum.splits cong: conj_cong)


lemma keeps_own_als_getStore: "keeps_own als_getStore own"
  unfolding als_getStore_def by (rule keeps_own_atomic) simp

lemma keeps_own_createEntityManager: "keeps_own createEntityManager own"
  unfolding createEntityManager_def by (rule keeps_own_atomic) simp

lemma keeps_own_store_get: "keeps_own (store_get k) own"
  unfolding store_get_def
  by (rule keeps_own_bind [OF keeps_own_als_getStore]) (simp split: option.splits)

lemma keeps_own_getManager: "keeps_own getManager own"
  unfolding getManager_def
  by (rule keeps_own_bind [OF keeps_own_als_getStore])
     (simp add: keeps_own_store_get keeps_own_createEntityManager)

lemma next_tx_write_row: "write_row h r w = Some w' \<Longrightarrow> next_tx w' = next_tx w"
  by (auto simp: write_row_def split: handle.splits option.splits)

lemma keeps_own_save_order: "keeps_own (manager_save_order h order) own"
  unfolding manager_save_order_def
  by (rule keeps_own_atomic) (auto simp: Let_def split: option.splits dest: next_tx_write_row)

lemma keeps_own_save_item: "keeps_own (manager_save_item h item) own"
  unfolding manager_save_item_def
  by (rule keeps_own_atomic) (auto simp: Let_def split: option.splits dest: next_tx_write_row)

lemma keeps_own_find: "keeps_own (manager_find h) own"
  unfolding manager_find_def
  by (rule keeps_own_atomic) (auto split: option.splits)

lemma keeps_own_findOneOrFail: "keeps_own (manager_findOneOrFail h i) own"
  unfolding manager_findOneOrFail_def
  by (rule keeps_own_atomic) (auto split: option.splits list.splits)

lemma keeps_own_random: "keeps_own math_random_floor5 own"
  unfolding math_random_floor5_def by (rule keeps_own_atomic) simp

lemma keeps_own_commit: "keeps_own (commitTransaction n) own"
  unfolding commitTransaction_def by (rule keeps_own_atomic) simp

lemma keeps_own_rollback: "keeps_own (rollbackTransaction n) own"
  unfolding rollbackTransaction_def by (rule keeps_own_atomic) simp

lemma keeps_own_als_enter_then:
  assumes "own_ctx own c'" and "keeps_own (k ()) own"
  shows "keeps_own (bind (als_enter c') k) own"
  unfolding als_enter_def keeps_own_bind_atomic using assms by simp

lemma keeps_own_als_getStore_then:
  assumes "\<And>c. own_ctx own c \<Longrightarrow> keeps_own (k c) own"
  shows "keeps_own (bind als_getStore k) own"
  unfolding als_getStore_def keeps_own_bind_atomic using assms by simp

lemma keeps_own_startTransaction_then:
  assumes "\<And>n own'. n \<in> own' \<Longrightarrow> own \<subseteq> own' \<Longrightarrow> keeps_own (k n) own'"
  shows "keeps_own (bind startTransaction k) own"
  unfolding startTransaction_def keeps_own_bind_atomic
proof (intro allI impI)
  fix c :: "store option" and w :: world
  assume c: "own_ctx own c"
  have "own_ctx (insert (next_tx w) own) c" using c by (rule own_ctx_mono) auto
  moreover have "keeps_own (k (next_tx w)) (insert (next_tx w) own)"
    by (rule assms) auto
  ultimately show "next_tx w \<le> next_tx (snd (snd (case (c, w) of (c, w) \<Rightarrow> (Inr (next_tx w), c, begin_world w)))) \<and>
       own_ctx (own \<union> {next_tx w..<next_tx (snd (snd (case (c, w) of (c, w) \<Rightarrow> (Inr (next_tx w), c, begin_world w))))})
        (fst (snd (case (c, w) of (c, w) \<Rightarrow> (Inr (next_tx w), c, begin_world w)))) \<and>
       (case fst (case (c, w) of (c, w) \<Rightarrow> (Inr (next_tx w), c, begin_world w)) of Inl e \<Rightarrow> True
        | Inr v \<Rightarrow> keeps_own (k v)
             (own \<union> {next_tx w..<next_tx (snd (snd (case (c, w) of (c, w) \<Rightarrow> (Inr (next_tx w), c, begin_world w))))}))"
    by simp
qed

lemma keeps_own_als_run:
  assumes m: "own_ctx own (Some m)" and cb: "keeps_own callback own"
  shows "keeps_own (als_run m callback) own"
  unfolding als_run_def
proof (rule keeps_own_als_getStore_then)
  fix c assume c: "own_ctx own c"
  have "keeps_own (and_finally callback (als_enter c)) own"
    unfolding and_finally_def
  proof (rule keeps_own_settle [OF cb])
    fix v :: 'a and own' :: "nat set"
    assume "own \<subseteq> own'"
    with c have "own_ctx own' c" by (rule own_ctx_mono)
    then show "keeps_own (bind (als_enter c) (\<lambda>_. Done v)) own'"
      by (rule keeps_own_als_enter_then) simp
  next
    fix e own' assume "own \<subseteq> own'"
    with c have "own_ctx own' c" by (rule own_ctx_mono)
    then show "keeps_own (bind (als_enter c) (\<lambda>_. Fail e)) own'"
      by (rule keeps_own_als_enter_then) simp
  qed
  with m show "keeps_own (bind (als_enter (Some m)) (\<lambda>_. and_finally callback (als_enter c))) own"
    by (rule keeps_own_als_enter_then)
qed

lemma keeps_own_store_set_then:
  assumes "n \<in> own" and "keeps_own (k ()) own"
  shows "keeps_own (bind (store_set key (TxManager n)) k) own"
  unfolding store_set_def keeps_own_bind_atomic using assms
  by (auto split: option.splits intro: own_ctx_set)

lemma keeps_own_transaction_body:
  assumes n: "n \<in> own" and fn: "\<And>own'. keeps_own (fn (TxManager n)) own'"
  shows "keeps_own (bind (await (als_run Map.empty
               (bind (store_set ''typeOrmEntityManager'' (TxManager n)) (\<lambda>_.
                bind (await (fn (TxManager n))) (\<lambda>response.
                Done response)))))
         (\<lambda>response. Done response)) own"
proof -
  have "keeps_own (bind (await (fn (TxManager n))) (\<lambda>response. Done response)) own"
    by (intro keeps_own_bind keeps_own_await fn) simp
  with n have "keeps_own (bind (store_set ''typeOrmEntityManager'' (TxManager n)) (\<lambda>_.
                bind (await (fn (TxManager n))) (\<lambda>response. Done response))) own"
    by (rule keeps_own_store_set_then)
  then have "keeps_own (als_run Map.empty
               (bind (store_set ''typeOrmEntityManager'' (TxManager n)) (\<lambda>_.
                bind (await (fn (TxManager n))) (\<lambda>response. Done response)))) own"
    by (intro keeps_own_als_run own_ctx_empty)
  then have "keeps_own (await (als_run Map.empty
               (bind (store_set ''typeOrmEntityManager'' (TxManager n)) (\<lambda>_.
                bind (await (fn (TxManager n))) (\<lambda>response. Done response))))) own"
    by (rule keeps_own_await)
  then show ?thesis by (rule keeps_own_bind) simp
qed

lemma keeps_own_doTransactional:
  assumes fn: "\<And>manager own'. keeps_own (fn manager) own'"
  shows "keeps_own (doTransactional fn) own"
  unfolding doTransactional_def connection_transaction_def
proof (rule keeps_own_await, rule keeps_own_startTransaction_then)
  fix n :: nat and own' :: "nat set"
  assume n: "n \<in> own'"
  have "keeps_own (bind (await (als_run Map.empty
               (bind (store_set ''typeOrmEntityManager'' (TxManager n)) (\<lambda>_.
                bind (await (fn (TxManager n))) (\<lambda>response.
                Done response)))))
         (\<lambda>response. Done response)) own'"
    using n by (rule keeps_own_transaction_body) (rule fn)
  then have "keeps_own (await (bind (await (als_run Map.empty
               (bind (store_set ''typeOrmEntityManager'' (TxManager n)) (\<lambda>_.
                bind (await (fn (TxManager n))) (\<lambda>response.
                Done response)))))
         (\<lambda>response. Done response))) own'"
    by (rule keeps_own_await)
  then show "keeps_own (settle (await (bind (await (als_run Map.empty
               (bind (store_set ''typeOrmEntityManager'' (TxManager n)) (\<lambda>_.
                bind (await (fn (TxManager n))) (\<lambda>response.
                Done response)))))
         (\<lambda>response. Done response)))
         (\<lambda>result. bind (await (commitTransaction n)) (\<lambda>_. Done result))
         (\<lambda>err. bind (await (rollbackTransaction n)) (\<lambda>_. Fail err))) own'"
  proof (rule keeps_own_settle)
    fix result :: 'a and own'' :: "nat set"
    show "keeps_own (bind (await (commitTransaction n)) (\<lambda>_. Done result)) own''"
      by (intro keeps_own_bind keeps_own_await keeps_own_commit) simp
  next
    fix err own''
    show "keeps_own (bind (await (rollbackTransaction n)) (\<lambda>_. Fail err)) own''"
      by (intro keeps_own_bind keeps_own_await keeps_own_rollback) simp
  qed
qed

lemma keeps_own_perform: "keeps_own (perform wk) own"
proof (induction wk arbitrary: own)
  case (TryCatch body handler k)
  show ?case
    unfolding perform.simps
    by (intro keeps_own_bind keeps_own_settle TryCatch.IH rangeI) simp_all
next
  case (CallDoTransactional fn k)
  show ?case
    unfolding perform.simps
    by (intro keeps_own_bind keeps_own_await keeps_own_doTransactional CallDoTransactional.IH rangeI)
qed (auto intro!: keeps_own_bind keeps_own_await keeps_own_getManager keeps_own_save_order
       keeps_own_save_item keeps_own_find keeps_own_findOneOrFail keeps_own_random)


lemma isolated_start:
  assumes "\<And>t. keeps_own (ps t) {}"
  shows "isolated (start w ps)"
  using assms by (simp add: isolated_def start_def owned_def)

lemma isolated_step:
  assumes inv: "isolated cf"
  shows "isolated (step_task t cf)"
proof (cases "proc_of cf t")
  case (Done v)
  with inv show ?thesis by (simp add: step_task_def)
next
  case (Fail e)
  with inv show ?thesis by (simp add: step_task_def)
next
  case (Yield p)
  have "keeps_own (proc_of cf t) (owned cf t)" using inv by (simp add: isolated_def)
  with Yield have "keeps_own p (owned cf t)" by simp
  with inv Yield show ?thesis
    by (simp add: step_task_def isolated_def owned_def)
next
  case (Step u n)
  let ?c = "ctx_of cf t" and ?w = "shared cf"
  let ?c' = "fst (u (?c, ?w))" and ?w' = "snd (u (?c, ?w))"
  let ?new = "{next_tx ?w ..< next_tx ?w'}"
  let ?cf' = "step_task t cf"
  have lt: "\<And>k t'. opened_by cf k = Some t' \<Longrightarrow> k < next_tx ?w"
    using inv by (simp add: isolated_def)
  have c: "own_ctx (owned cf t) ?c" and p: "keeps_own (proc_of cf t) (owned cf t)"
    using inv by (simp_all add: isolated_def)
  from p c Step have le: "next_tx ?w \<le> next_tx ?w'"
    and c': "own_ctx (owned cf t \<union> ?new) ?c'"
    and p': "keeps_own (n (?c, ?w)) (owned cf t \<union> ?new)"
    by auto
  have cf': "?cf' = cf\<lparr>shared := ?w', ctx_of := (ctx_of cf)(t := ?c'),
      proc_of := (proc_of cf)(t := n (?c, ?w)),
      opened_by := (\<lambda>k. if next_tx ?w \<le> k \<and> k < next_tx ?w' then Some t else opened_by cf k)\<rparr>"
    using Step by (simp add: step_task_def Let_def)
  have own_t: "owned ?cf' t = owned cf t \<union> ?new"
    by (auto simp: cf' owned_def)
  have own_other: "owned ?cf' t' = owned cf t'" if "t' \<noteq> t" for t'
  proof (rule set_eqI)
    fix k
    show "k \<in> owned ?cf' t' \<longleftrightarrow> k \<in> owned cf t'"
    proof (cases "next_tx ?w \<le> k \<and> k < next_tx ?w'")
      case True
      then have "opened_by cf k \<noteq> Some t'" using lt [of k t'] by auto
      with True that show ?thesis by (simp add: cf' owned_def)
    next
      case False
      then show ?thesis by (auto simp: cf' owned_def)
    qed
  qed
  show ?thesis
    unfolding isolated_def
  proof (intro conjI allI impI)
    fix k t' assume "opened_by ?cf' k = Some t'"
    then have "k < next_tx ?w' \<or> opened_by cf k = Some t'"
      by (auto simp: cf' split: if_splits)
    with lt le show "k < next_tx (shared ?cf')" by (fastforce simp: cf')
  next
    fix t'
    show "own_ctx (owned ?cf' t') (ctx_of ?cf' t')"
    proof (cases "t' = t")
      case True
      with c' own_t show ?thesis by (simp add: cf')
    next
      case False
      then have "ctx_of ?cf' t' = ctx_of cf t'" by (simp add: cf')
      moreover have "own_ctx (owned cf t') (ctx_of cf t')" using inv by (simp add: isolated_def)
      ultimately show ?thesis using own_other [OF False] by simp
    qed
  next
    fix t'
    show "keeps_own (proc_of ?cf' t') (owned ?cf' t')"
    proof (cases "t' = t")
      case True
      with p' own_t show ?thesis by (simp add: cf')
    next
      case False
      then have "proc_of ?cf' t' = proc_of cf t'" by (simp add: cf')
      moreover have "keeps_own (proc_of cf t') (owned cf t')" using inv by (simp add: isolated_def)
      ultimately show ?thesis using own_other [OF False] by simp
    qed
  qed
qed

lemma isolated_run: "isolated cf \<Longrightarrow> isolated (run_schedule sched cf)"
  unfolding run_schedule_def
  by (induction sched arbitrary: cf) (simp_all add: isolated_step)

lemma isolated_ambient:
  assumes inv: "isolated cf" and amb: "ambient cf t = Inr (TxManager n)"
  shows "opened_by cf n = Some t"
proof -
  have c: "own_ctx (owned cf t) (ctx_of cf t)" using inv by (simp add: isolated_def)
  from amb obtain m where "ctx_of cf t = Some m" "m ''typeOrmEntityManager'' = Some (TxManager n)"
    by (auto simp: ambient_def exec_getManager split: option.splits)
  with c have "n \<in> owned cf t" unfolding own_ctx_def by blast
  then show ?thesis by (simp add: owned_def)
qed

text \<open>
  Claim C2. Let any number of logical executions each run \<open>doTransactional\<close> on work
  of its own, interleaved by any schedule. In every configuration the schedule reaches,
  so at every point of every execution, before and after each suspension, a transaction
  handle that \<open>getManager\<close> returns to execution \<open>a\<close> belongs to a transaction
  that a step of \<open>a\<close> itself began, and so to none that another execution \<open>b\<close>
  began. The current store of each execution is its own, as \<open>AsyncLocalStorage\<close>
  provides; the theorem is that the code puts into it no handle but its own.
\<close>

theorem getManager_isolated:
  assumes "ambient (run_schedule sched
             (start w (\<lambda>t. doTransactional (\<lambda>manager. perform (work t manager))))) a
           = Inr (TxManager n)"
    and "a \<noteq> b"
  shows "opened_by (run_schedule sched
             (start w (\<lambda>t. doTransactional (\<lambda>manager. perform (work t manager))))) n = Some a
    \<and> opened_by (run_schedule sched
             (start w (\<lambda>t. doTransactional (\<lambda>manager. perform (work t manager))))) n \<noteq> Some b"
proof -
  let ?cf = "run_schedule sched
             (start w (\<lambda>t. doTransactional (\<lambda>manager. perform (work t manager))))"
  have "isolated (start w (\<lambda>t. doTransactional (\<lambda>manager. perform (work t manager))))"
    by (intro isolated_start keeps_own_doTransactional keeps_own_perform)
  then have "isolated ?cf" by (rule isolated_run)
  then have "opened_by ?cf n = Some a" using assms(1) by (rule isolated_ambient)
  with assms(2) show ?thesis by simp
qed

theorem getManager_isolated_witness:
  "ambient (run_schedule [0, 1, 0, 1, 0, 1, 0, 1]
      (start (initial_world (\<lambda>_. 0))
         (\<lambda>t. doTransactional (\<lambda>manager. perform (asking_work t manager))))) 0
     = Inr (TxManager 0)
   \<and> (0 :: task) \<noteq> 1
   \<and> opened_by (run_schedule [0, 1, 0, 1, 0, 1, 0, 1]
      (start (initial_world (\<lambda>_. 0))
         (\<lambda>t. doTransactional (\<lambda>manager. perform (asking_work t manager))))) 0 = Some 0
   \<and> opened_by (run_schedule [0, 1, 0, 1, 0, 1, 0, 1]
      (start (initial_world (\<lambda>_. 0))
         (\<lambda>t. doTransactional (\<lambda>manager. perform (asking_work t manager))))) 0 \<noteq> Some 1"
proof -
  have h1: "ambient (run_schedule [0, 1, 0, 1, 0, 1, 0, 1]
      (start (initial_world (\<lambda>_. 0))
         (\<lambda>t. doTransactional (\<lambda>manager. perform (asking_work t manager))))) 0
     = Inr (TxManager 0)"
    by (simp add: ambient_def run_schedule_def start_def step_task_def doTransactional_def
        connection_transaction_def startTransaction_def als_run_def als_getStore_def als_enter_def
        store_set_def bind_def await_def atomic_def and_finally_def asking_work_def
        exec_getManager Let_def world_defs)
  have h2: "(0 :: task) \<noteq> 1" by simp
  from getManager_isolated [where work = asking_work and b = 1, OF h1 h2] h1 h2
  show ?thesis by simp
qed

end
